theory Spec2Isabelle
  imports Complex_Main "HOL-Library.AList"
begin

section \<open>Python values: strings, exceptions, files\<close>

text \<open>
  A Python \<open>str\<close> is a sequence of Unicode code points; it is modelled as the list of the
  code points' numbers. \<open>u\<close> turns an ASCII literal of the source into such a string.
\<close>

type_synonym pystr = "nat list"

definition u :: "string \<Rightarrow> pystr" where
  "u s = map of_char s"

text \<open>
  Exceptions are values. \<open>SystemExit n\<close> is what \<open>sys.exit(n)\<close> raises; every other
  constructor is an exception class that the two programs or the library calls they make
  can raise.
\<close>

datatype exn =
    SystemExit nat
  | UnboundLocalError
  | FileNotFoundError
  | IsADirectoryError
  | NotADirectoryError
  | PermissionError
  | JSONDecodeError
  | KeyError
  | TypeError
  | IndexError
  | AttributeError
  | FakeUserAgentError string
  | URLError
  | ServerTimeoutError
  | ClientError
  | ParserError
  | ValueError
  | FileExistsError

section \<open>JSON: \<open>json.dumps\<close> and \<open>json.loads\<close>\<close>

text \<open>
  The values that \<open>json.loads\<close> can return and that the programs pass around. A number
  is kept as the text that was read (the programs never compute with one). A \<open>dict\<close> is
  the list of its items in insertion order; its keys are strings.
\<close>

datatype pyval =
    PNone
  | PBool bool
  | PNum pystr
  | PStr pystr
  | PList "pyval list"
  | PDict "(pystr \<times> pyval) list"

text \<open>
  \<open>dict(pairs)\<close>: a later value for a key replaces the earlier one and keeps its place.
\<close>

definition dict :: "(pystr \<times> pyval) list \<Rightarrow> (pystr \<times> pyval) list" where
  "dict pairs = foldl (\<lambda>d (k, v). AList.update k v d) [] pairs"

text \<open>
  \<open>json.dumps\<close> with its defaults (\<open>ensure_ascii\<close>, the separators \<open>", "\<close> and
  \<open>": "\<close>). \<open>escape_char\<close> is the replacement function of
  \<open>py_encode_basestring_ascii\<close>: the short escapes, \<open>\u\<close> and four lower-case hex digits
  for any other code point outside the printable ASCII range, a surrogate pair above the
  basic plane. The bit operations of the source are written with \<open>div\<close> and \<open>mod\<close>.
\<close>

definition hexdigit :: "nat \<Rightarrow> nat" where
  "hexdigit d = (if d < 10 then 48 + d else 87 + d)"

definition hex4 :: "nat \<Rightarrow> pystr" where
  "hex4 n = [hexdigit (n div 4096 mod 16), hexdigit (n div 256 mod 16),
             hexdigit (n div 16 mod 16), hexdigit (n mod 16)]"

definition escape_char :: "nat \<Rightarrow> pystr" where
  "escape_char c =
     (if c = 92 then [92, 92]
      else if c = 34 then [92, 34]
      else if c = 8 then [92, 98]
      else if c = 12 then [92, 102]
      else if c = 10 then [92, 110]
      else if c = 13 then [92, 114]
      else if c = 9 then [92, 116]
      else if 32 \<le> c \<and> c \<le> 126 then [c]
      else if c < 65536 then [92, 117] @ hex4 c
      else (let n = c - 65536;
                s1 = 55296 + (n div 1024) mod 1024;
                s2 = 56320 + n mod 1024
            in [92, 117] @ hex4 s1 @ [92, 117] @ hex4 s2))"

definition encode_basestring_ascii :: "pystr \<Rightarrow> pystr" where
  "encode_basestring_ascii s = [34] @ concat (map escape_char s) @ [34]"

text \<open>
  The encoder proper. \<open>dumps_list\<close> and \<open>dumps_items\<close> write the elements of a list and
  the items of a \<open>dict\<close> with their separators. A number is written as the text it was
  read from.
\<close>

fun json_dumps :: "pyval \<Rightarrow> pystr"
  and dumps_list :: "pyval list \<Rightarrow> pystr"
  and dumps_items :: "(pystr \<times> pyval) list \<Rightarrow> pystr" where
  "json_dumps PNone = u ''null''"
| "json_dumps (PBool b) = (if b then u ''true'' else u ''false'')"
| "json_dumps (PNum lexeme) = lexeme"
| "json_dumps (PStr s) = encode_basestring_ascii s"
| "json_dumps (PList vs) = u ''['' @ dumps_list vs @ u '']''"
| "json_dumps (PDict kvs) = u ''{'' @ dumps_items kvs @ u ''}''"
| "dumps_list [] = []"
| "dumps_list [v] = json_dumps v"
| "dumps_list (v # w # vs) = json_dumps v @ u '', '' @ dumps_list (w # vs)"
| "dumps_items [] = []"
| "dumps_items [(k, v)] = encode_basestring_ascii k @ u '': '' @ json_dumps v"
| "dumps_items ((k, v) # kw # kvs) =
     encode_basestring_ascii k @ u '': '' @ json_dumps v @ u '', '' @ dumps_items (kw # kvs)"

text \<open>
  \<open>json.loads\<close>. \<open>scanstring\<close> is \<open>py_scanstring\<close> in strict mode, on the text after
  the opening quote: it returns the string and the text after the closing quote, or
  \<open>None\<close> where the source raises \<open>JSONDecodeError\<close>. \<open>decode_uXXXX\<close> reads four hex
  digits; a high surrogate followed by an escaped low surrogate is one code point.
\<close>

definition hexval :: "nat \<Rightarrow> nat option" where
  "hexval c =
     (if 48 \<le> c \<and> c \<le> 57 then Some (c - 48)
      else if 97 \<le> c \<and> c \<le> 102 then Some (c - 87)
      else if 65 \<le> c \<and> c \<le> 70 then Some (c - 55)
      else None)"

definition decode_uXXXX :: "pystr \<Rightarrow> nat option" where
  "decode_uXXXX s =
     (case s of
        a # b # c # d # _ \<Rightarrow>
          (case (hexval a, hexval b, hexval c, hexval d) of
             (Some x3, Some x2, Some x1, Some x0) \<Rightarrow> Some (x3 * 4096 + x2 * 256 + x1 * 16 + x0)
           | _ \<Rightarrow> None)
      | _ \<Rightarrow> None)"

definition backslash :: "nat \<Rightarrow> nat option" where
  "backslash e =
     (if e = 34 then Some 34
      else if e = 92 then Some 92
      else if e = 47 then Some 47
      else if e = 98 then Some 8
      else if e = 102 then Some 12
      else if e = 110 then Some 10
      else if e = 114 then Some 13
      else if e = 116 then Some 9
      else None)"

definition cons_char :: "nat \<Rightarrow> (pystr \<times> pystr) option \<Rightarrow> (pystr \<times> pystr) option" where
  "cons_char c r = map_option (\<lambda>(s, rest). (c # s, rest)) r"

fun scanstring :: "pystr \<Rightarrow> (pystr \<times> pystr) option" where
  "scanstring [] = None"
| "scanstring (c # cs) =
     (if c = 34 then Some ([], cs)
      else if c = 92 then
        (case cs of
           [] \<Rightarrow> None
         | esc # r \<Rightarrow>
             if esc \<noteq> 117 then
               (case backslash esc of
                  None \<Rightarrow> None
                | Some char \<Rightarrow> cons_char char (scanstring r))
             else
               (case decode_uXXXX r of
                  None \<Rightarrow> None
                | Some uni \<Rightarrow>
                    if 55296 \<le> uni \<and> uni \<le> 56319 \<and> take 2 (drop 4 r) = [92, 117] then
                      (case decode_uXXXX (drop 6 r) of
                         None \<Rightarrow> None
                       | Some uni2 \<Rightarrow>
                           if 56320 \<le> uni2 \<and> uni2 \<le> 57343 then
                             cons_char (65536 + ((uni - 55296) * 1024 + (uni2 - 56320)))
                               (scanstring (drop 10 r))
                           else cons_char uni (scanstring (drop 4 r)))
                    else cons_char uni (scanstring (drop 4 r))))
      else if c < 32 then None
      else cons_char c (scanstring cs))"


text \<open>
  \<open>match_number\<close> is the match of \<open>NUMBER_RE\<close>,
  \<^verbatim>\<open>(-?(?:0|[1-9][0-9]*))(\.[0-9]+)?([eE][-+]?[0-9]+)?\<close>, at the start of the text: the
  text matched and the rest.
\<close>

definition isdigit :: "nat \<Rightarrow> bool" where
  "isdigit c = (48 \<le> c \<and> c \<le> 57)"

definition match_number :: "pystr \<Rightarrow> (pystr \<times> pystr) option" where
  "match_number s =
     (let sign = (if take 1 s = [45] then [45] else []);
          r0 = drop (length sign) s;
          digits = takeWhile isdigit r0
      in if digits = [] then None
         else
           (let ipart = (if take 1 digits = [48] then [48] else digits);
                r1 = drop (length ipart) r0;
                fd = takeWhile isdigit (drop 1 r1);
                frac = (if take 1 r1 = [46] \<and> fd \<noteq> [] then 46 # fd else []);
                r2 = drop (length frac) r1;
                r2' = drop 1 r2;
                sg = (if take 1 r2' = [43] \<or> take 1 r2' = [45] then take 1 r2' else []);
                ed = takeWhile isdigit (drop (length sg) r2');
                ex = (if (take 1 r2 = [101] \<or> take 1 r2 = [69]) \<and> ed \<noteq> []
                      then take 1 r2 @ sg @ ed else []);
                r3 = drop (length ex) r2
            in Some (sign @ ipart @ frac @ ex, r3)))"

text \<open>
  White space between the tokens, and the values that are neither a string, an object nor
  an array, in the order of the scanner: \<open>null\<close>, \<open>true\<close>, \<open>false\<close>, a number,
  \<open>NaN\<close>, \<open>Infinity\<close>, \<open>-Infinity\<close>.
\<close>

definition is_ws :: "nat \<Rightarrow> bool" where
  "is_ws c = (c = 32 \<or> c = 9 \<or> c = 10 \<or> c = 13)"

definition skip_ws :: "pystr \<Rightarrow> pystr" where
  "skip_ws s = dropWhile is_ws s"

definition scan_atom :: "pystr \<Rightarrow> (pyval \<times> pystr) option" where
  "scan_atom s =
     (if take 4 s = u ''null'' then Some (PNone, drop 4 s)
      else if take 4 s = u ''true'' then Some (PBool True, drop 4 s)
      else if take 5 s = u ''false'' then Some (PBool False, drop 5 s)
      else (case match_number s of
              Some (lexeme, r) \<Rightarrow> Some (PNum lexeme, r)
            | None \<Rightarrow>
                if take 3 s = u ''NaN'' then Some (PNum (u ''NaN''), drop 3 s)
                else if take 8 s = u ''Infinity'' then Some (PNum (u ''Infinity''), drop 8 s)
                else if take 9 s = u ''-Infinity'' then Some (PNum (u ''-Infinity''), drop 9 s)
                else None))"

text \<open>
  \<open>scan_once\<close> is the scanner, \<open>parse_array\<close> the loop of \<open>JSONArray\<close> from its
  first value on, \<open>parse_object\<close> the loop of \<open>JSONObject\<close> from the text after the
  opening quote of a key. Each returns the value and the text that follows it. The source
  skips white space through a regular expression and two fast paths; \<open>skip_ws\<close> is both.
  The two loops go on with the text that \<open>scan_once\<close> returns; the test that this text is
  shorter than the one it was given is there for the termination proof only, and lemma
  \<open>scan_once_shorter\<close> shows that it never fails.
\<close>

lemma scanstring_shorter: "scanstring s = Some (k, r) \<Longrightarrow> length r < length s"
proof (induction s arbitrary: k r rule: scanstring.induct)
  case 1
  then show ?case by simp
next
  case (2 c cs)
  show ?case
    using "2.prems" "2.IH"
    by (fastforce simp: cons_char_def split: if_splits list.splits option.splits)
qed

lemma length_skip_ws: "length (skip_ws s) \<le> length s"
  by (simp add: skip_ws_def length_dropWhile_le)

lemma skip_ws_Cons_shorter: "skip_ws s = c # r \<Longrightarrow> length r < length s"
  using length_skip_ws [of s] by simp

function scan_once :: "pystr \<Rightarrow> (pyval \<times> pystr) option"
  and parse_array :: "pystr \<Rightarrow> (pyval list \<times> pystr) option"
  and parse_object :: "pystr \<Rightarrow> ((pystr \<times> pyval) list \<times> pystr) option" where
  "scan_once s =
     (case s of
        [] \<Rightarrow> None
      | c # r \<Rightarrow>
          if c = 34 then map_option (\<lambda>(x, rest). (PStr x, rest)) (scanstring r)
          else if c = 123 then
            (case skip_ws r of
               [] \<Rightarrow> None
             | c1 # r1 \<Rightarrow>
                 if c1 = 125 then Some (PDict [], r1)
                 else if c1 = 34 then
                   map_option (\<lambda>(pairs, rest). (PDict (dict pairs), rest)) (parse_object r1)
                 else None)
          else if c = 91 then
            (case skip_ws r of
               [] \<Rightarrow> None
             | c1 # r1 \<Rightarrow>
                 if c1 = 93 then Some (PList [], r1)
                 else map_option (\<lambda>(values, rest). (PList values, rest)) (parse_array (c1 # r1)))
          else scan_atom s)"
| "parse_array s =
     (case scan_once s of
        None \<Rightarrow> None
      | Some (v, r) \<Rightarrow>
          if length s \<le> length r then None
          else
            (case skip_ws r of
               [] \<Rightarrow> None
             | c # r1 \<Rightarrow>
                 if c = 93 then Some ([v], r1)
                 else if c = 44 then
                   map_option (\<lambda>(values, rest). (v # values, rest)) (parse_array (skip_ws r1))
                 else None))"
| "parse_object s =
     (case scanstring s of
        None \<Rightarrow> None
      | Some (key, r) \<Rightarrow>
          (case skip_ws r of
             [] \<Rightarrow> None
           | c # r1 \<Rightarrow>
               if c \<noteq> 58 then None
               else
                 (case scan_once (skip_ws r1) of
                    None \<Rightarrow> None
                  | Some (v, r2) \<Rightarrow>
                      if length (skip_ws r1) \<le> length r2 then None
                      else
                        (case skip_ws r2 of
                           [] \<Rightarrow> None
                         | c2 # r3 \<Rightarrow>
                             if c2 = 125 then Some ([(key, v)], r3)
                             else if c2 \<noteq> 44 then None
                             else
                               (case skip_ws r3 of
                                  [] \<Rightarrow> None
                                | c3 # r4 \<Rightarrow>
                                    if c3 \<noteq> 34 then None
                                    else map_option (\<lambda>(pairs, rest). ((key, v) # pairs, rest))
                                           (parse_object r4))))))"
  by pat_completeness auto

termination
  apply (relation "measure (\<lambda>x. case x of Inl s \<Rightarrow> 2 * length s
                                   | Inr (Inl s) \<Rightarrow> 2 * length s + 1
                                   | Inr (Inr s) \<Rightarrow> 2 * length s + 1)")
  subgoal by simp
  subgoal for s c r c1 r1 using skip_ws_Cons_shorter [of r c1 r1] by simp
  subgoal for s c r c1 r1 using skip_ws_Cons_shorter [of r c1 r1] by simp
  subgoal by simp
  subgoal for s x v r c r1
    using skip_ws_Cons_shorter [of r c r1] length_skip_ws [of r1] by simp
  subgoal for s x key r c r1
    using scanstring_shorter [of s key r] skip_ws_Cons_shorter [of r c r1] length_skip_ws [of r1]
    by simp
  subgoal for s x key r c r1 x2 v r2 c2 r3 c3 r4
    using scanstring_shorter [of s key r] skip_ws_Cons_shorter [of r c r1] length_skip_ws [of r1]
      skip_ws_Cons_shorter [of r2 c2 r3] skip_ws_Cons_shorter [of r3 c3 r4]
    by simp
  done

text \<open>
  \<open>JSONDecoder.decode\<close>: white space, one value, white space, and nothing more.
  \<open>None\<close> is \<open>JSONDecodeError\<close>.
\<close>

definition json_loads :: "pystr \<Rightarrow> pyval option" where
  "json_loads s =
     (case scan_once (skip_ws s) of
        None \<Rightarrow> None
      | Some (v, r) \<Rightarrow> if skip_ws r = [] then Some v else None)"

declare scan_once.simps [simp del] parse_array.simps [simp del] parse_object.simps [simp del]

text \<open>
  Well-formed values: every string is a sequence of Unicode scalar values (code points
  that are not surrogates), every \<open>dict\<close> has distinct keys, and there is no number. This
  is what the programs build from decoded pages.
\<close>

definition scalar :: "nat \<Rightarrow> bool" where
  "scalar c = (c < 55296 \<or> 57343 < c \<and> c < 1114112)"

definition wf_str :: "pystr \<Rightarrow> bool" where
  "wf_str s = list_all scalar s"

fun wf_val :: "pyval \<Rightarrow> bool" where
  "wf_val PNone = True"
| "wf_val (PBool b) = True"
| "wf_val (PNum lexeme) = False"
| "wf_val (PStr s) = wf_str s"
| "wf_val (PList vs) = list_all wf_val vs"
| "wf_val (PDict kvs) =
     (distinct (map fst kvs) \<and> list_all (\<lambda>kv. wf_str (fst kv) \<and> wf_val (snd kv)) kvs)"


text \<open>The characters a dumped value can begin with: a quote, a bracket, a brace, or the
  first letter of \<open>null\<close>, \<open>true\<close>, \<open>false\<close>.\<close>

definition opener :: "nat \<Rightarrow> bool" where
  "opener c = (c = 34 \<or> c = 91 \<or> c = 102 \<or> c = 110 \<or> c = 116 \<or> c = 123)"

section \<open>Files\<close>

text \<open>
  The file system maps a path, read as the string the program passes, to what is there:
  a directory, a text file with its decoded content, or a file that \<open>open\<close> or
  \<open>read\<close> rejects (no permission, or bytes that are not UTF-8). Permissions of
  directories, links and the working directory are not modelled.
\<close>

datatype node = Dir | File pystr | Opaque

type_synonym fs = "pystr \<Rightarrow> node option"

definition exists :: "fs \<Rightarrow> pystr \<Rightarrow> bool" where
  "exists fsys p = (fsys p \<noteq> None)"

definition isfile :: "fs \<Rightarrow> pystr \<Rightarrow> bool" where
  "isfile fsys p = (case fsys p of Some (File _) \<Rightarrow> True | Some Opaque \<Rightarrow> True | _ \<Rightarrow> False)"

text \<open>\<open>posixpath.dirname\<close>: the part before the last slash, without trailing slashes
  unless it consists of slashes only.\<close>

definition sep :: nat where
  "sep = 47"

definition rstrip_sep :: "pystr \<Rightarrow> pystr" where
  "rstrip_sep p = rev (dropWhile (\<lambda>c. c = sep) (rev p))"

definition dirname :: "pystr \<Rightarrow> pystr" where
  "dirname p =
     (let head = rev (dropWhile (\<lambda>c. c \<noteq> sep) (rev p))
      in if head \<noteq> [] \<and> head \<noteq> replicate (length head) sep then rstrip_sep head else head)"

text \<open>\<open>open(path, encoding="utf-8").read()\<close>.\<close>

definition read_text :: "fs \<Rightarrow> pystr \<Rightarrow> exn + pystr" where
  "read_text fsys p =
     (case fsys p of
        None \<Rightarrow> Inl FileNotFoundError
      | Some Dir \<Rightarrow> Inl IsADirectoryError
      | Some Opaque \<Rightarrow> Inl PermissionError
      | Some (File s) \<Rightarrow> Inr s)"

text \<open>\<open>open(path, encoding="utf-8", mode="wt")\<close> followed by \<open>write(s)\<close>: the file is
  created or truncated; the directory part of the path, when there is one, has to exist.\<close>

definition write_text :: "fs \<Rightarrow> pystr \<Rightarrow> pystr \<Rightarrow> exn + fs" where
  "write_text fsys p s =
     (let d = dirname p
      in if d \<noteq> [] \<and> fsys d = None then Inl FileNotFoundError
         else if d \<noteq> [] \<and> fsys d \<noteq> Some Dir then Inl NotADirectoryError
         else (case fsys p of
                 Some Dir \<Rightarrow> Inl IsADirectoryError
               | Some Opaque \<Rightarrow> Inl PermissionError
               | _ \<Rightarrow> Inr (fsys(p := Some (File s)))))"


text \<open>\<open>os.makedirs(name, exist_ok=True)\<close>: the directory and every missing ancestor are
  created; a file in the way makes it fail.\<close>

definition makedirs :: "fs \<Rightarrow> pystr \<Rightarrow> exn + fs" where
  "makedirs fsys name =
     (let names = [take i name. i \<leftarrow> [1..<length name], name ! i = sep] @ [name]
      in if list_ex (isfile fsys) names then Inl FileExistsError
         else Inr (\<lambda>p. if p \<in> set names \<and> fsys p = None then Some Dir else fsys p))"

section \<open>Random draws and string helpers\<close>

text \<open>
  The generator is not modelled: every draw is an argument of the function that makes it.
  \<open>random.choice(seq)\<close> is \<open>seq[self._randbelow(len(seq))]\<close>; the draw \<open>i\<close> stands for the
  generator's state and \<open>i mod len(seq)\<close> for \<open>_randbelow\<close>. A \<open>dict\<close> has a length but
  no integer keys here, a number or \<open>None\<close> has no length.
\<close>

definition choice :: "pyval \<Rightarrow> nat \<Rightarrow> exn + pyval" where
  "choice seq i =
     (case seq of
        PList xs \<Rightarrow> if xs = [] then Inl IndexError else Inr (xs ! (i mod length xs))
      | PStr s \<Rightarrow> if s = [] then Inl IndexError else Inr (PStr [s ! (i mod length s)])
      | PDict d \<Rightarrow> if d = [] then Inl IndexError else Inl KeyError
      | _ \<Rightarrow> Inl TypeError)"

text \<open>
  \<open>random.choices(population, weights=weights, k=1)\<close>, as the standard library has it:
  \<^verbatim>\<open>
    cum_weights = list(_accumulate(weights))
    total = cum_weights[-1] + 0.0
    hi = n - 1
    return [population[bisect(cum_weights, random() * total, 0, hi)]]
  \<close>
  \<open>r\<close> is the value of \<open>random()\<close>, a number in \<open>[0, 1)\<close>, taken as a real: the rounding of
  the product to a double is not modelled.
\<close>

fun running :: "int \<Rightarrow> int list \<Rightarrow> int list" where
  "running acc [] = []"
| "running acc (w # ws) = (acc + w) # running (acc + w) ws"

definition accumulate :: "int list \<Rightarrow> int list" where
  "accumulate ws = running 0 ws"

function bisect :: "int list \<Rightarrow> real \<Rightarrow> nat \<Rightarrow> nat \<Rightarrow> nat" where
  "bisect a x lo hi =
     (if lo < hi then
        (let mid = (lo + hi) div 2
         in if x < real_of_int (a ! mid) then bisect a x lo mid else bisect a x (mid + 1) hi)
      else lo)"
  by pat_completeness auto
termination
  by (relation "measure (\<lambda>(a, x, lo, hi). hi - lo)") auto

declare bisect.simps [simp del]

definition choices :: "'a list \<Rightarrow> int list \<Rightarrow> real \<Rightarrow> exn + 'a list" where
  "choices population weights r =
     (let n = length population;
          cum_weights = accumulate weights
      in if length cum_weights \<noteq> n then Inl ValueError
         else if cum_weights = [] then Inl IndexError
         else
           (let tot = real_of_int (last cum_weights)
            in if tot \<le> 0 then Inl ValueError
               else Inr [population ! bisect cum_weights (r * tot) 0 (n - 1)]))"

text \<open>
  \<open>str.strip()\<close> removes the white space of Unicode at both ends. \<open>str.lower()\<close> is
  modelled on the code points up to U+00FF (ASCII and Latin-1); a code point above is left
  as it is, the Unicode case tables are not carried.
\<close>

definition isspace :: "nat \<Rightarrow> bool" where
  "isspace c =
     ((9 \<le> c \<and> c \<le> 13) \<or> (28 \<le> c \<and> c \<le> 32) \<or> c = 133 \<or> c = 160 \<or> c = 5760
      \<or> (8192 \<le> c \<and> c \<le> 8202) \<or> c = 8232 \<or> c = 8233 \<or> c = 8239 \<or> c = 8287 \<or> c = 12288)"

definition strip :: "pystr \<Rightarrow> pystr" where
  "strip s = rev (dropWhile isspace (rev (dropWhile isspace s)))"

definition lower_cp :: "nat \<Rightarrow> nat" where
  "lower_cp c =
     (if 65 \<le> c \<and> c \<le> 90 then c + 32
      else if 192 \<le> c \<and> c \<le> 222 \<and> c \<noteq> 215 then c + 32
      else c)"

definition lower :: "pystr \<Rightarrow> pystr" where
  "lower s = map lower_cp s"

text \<open>\<open>v[key]\<close> with a string key: only a \<open>dict\<close> accepts it.\<close>

definition subscript :: "pyval \<Rightarrow> pystr \<Rightarrow> exn + pyval" where
  "subscript v key =
     (case v of
        PDict d \<Rightarrow> (case map_of d key of None \<Rightarrow> Inl KeyError | Some x \<Rightarrow> Inr x)
      | _ \<Rightarrow> Inl TypeError)"

section \<open>user\_agent.py: the lenient program\<close>

definition FIXED_UA :: pystr where
  "FIXED_UA = u ''Mozilla/5.0 (Windows NT 6.1; WOW64) AppleWebKit/537.36 (KHTML, like Gecko) Chrome/29.0.1547.62 Safari/537.36''"

definition BROWSERS :: "pystr list" where
  "BROWSERS = [u ''chrome'', u ''edge'', u ''firefox'', u ''safari'', u ''opera'']"

definition RANDOM_CUM_WEIGHTS :: "int list" where
  "RANDOM_CUM_WEIGHTS = [80, 86, 93, 97, 100]"

text \<open>\<open>call_on_error\<close> counts the attempt and logs; the counter is what it returns.\<close>

definition call_on_error :: "nat \<Rightarrow> nat" where
  "call_on_error attempt = attempt + 1"

text \<open>
  What one \<open>session.get\<close> with \<open>resp.text()\<close> ends in: the text of the page, an
  \<open>aiohttp.ServerTimeoutError\<close>, or any other exception. The network is a function from
  the browser name (the only varying part of the URL) and the number of the request to that
  outcome.

  \<open>parse_fetch\<close> is the \<open>while True\<close> loop of \<open>parse\<close>. It returns \<open>result\<close> and the
  number of requests it has sent. The loop leaves only through a \<open>break\<close>, so the function
  is partial: \<open>None\<close> is a loop that never ends.
\<close>

datatype response = Body pystr | Timeout | Failed

partial_function (option) parse_fetch ::
  "(nat \<Rightarrow> response) \<Rightarrow> nat \<Rightarrow> (pystr option \<times> nat) option" where
  "parse_fetch session attempt =
     (case session attempt of
        Body text \<Rightarrow> Some (Some text, attempt + 1)
      | Timeout \<Rightarrow>
          (let attempt' = call_on_error attempt
           in if attempt' = 3 then Some (None, attempt') else parse_fetch session attempt')
      | Failed \<Rightarrow> Some (None, attempt + 1))"

declare parse_fetch.simps [code]

definition browser_num :: nat where
  "browser_num = 50"

text \<open>
  \<open>parse(browser, session)\<close>. \<open>xpath\<close> stands for \<open>etree.HTML(result).xpath(...)\<close>: the
  text nodes the expression selects, or \<open>None\<close> when lxml raises on the page (the
  exception is \<open>ParserError\<close> here, whatever its class).
\<close>

definition parse ::
  "(pystr \<Rightarrow> pystr list option) \<Rightarrow> (pystr \<Rightarrow> nat \<Rightarrow> response) \<Rightarrow> pystr
   \<Rightarrow> (exn + pystr \<times> pystr list option) option" where
  "parse xpath net browser =
     (case parse_fetch (net browser) 0 of
        None \<Rightarrow> None
      | Some (result, requests) \<Rightarrow>
          Some (case result of
                  None \<Rightarrow> Inr (browser, None)
                | Some text \<Rightarrow>
                    (case xpath text of
                       None \<Rightarrow> Inl ParserError
                     | Some nodes \<Rightarrow>
                         (let versions = take browser_num nodes
                          in if versions = [] then Inr (browser, None)
                             else Inr (browser, Some versions)))))"

text \<open>\<open>die\<close> logs the failure and calls \<open>sys.exit(1)\<close>.\<close>

definition die :: "pystr \<Rightarrow> exn \<Rightarrow> string \<Rightarrow> exn" where
  "die file_path error op = SystemExit 1"

text \<open>The status the interpreter ends with when an exception reaches the top of the
  \<open>__main__\<close> block: the argument of \<open>sys.exit\<close>, or 1 after the traceback of any other
  exception.\<close>

definition exit_status :: "exn \<Rightarrow> nat" where
  "exit_status e = (case e of SystemExit n \<Rightarrow> n | _ \<Rightarrow> 1)"

text \<open>
  \<open>asyncio.gather\<close> over the five \<open>parse\<close> tasks: the results in the order of the tasks,
  or the exception of a task that raised.
\<close>

fun gather :: "(exn + 'a) option list \<Rightarrow> (exn + 'a list) option" where
  "gather [] = Some (Inr [])"
| "gather (t # ts) =
     (case t of
        None \<Rightarrow> None
      | Some r \<Rightarrow>
          (case gather ts of
             None \<Rightarrow> None
           | Some rs \<Rightarrow>
               Some (case r of
                       Inl e \<Rightarrow> Inl e
                     | Inr x \<Rightarrow> (case rs of Inl e \<Rightarrow> Inl e | Inr xs \<Rightarrow> Inr (x # xs)))))"

text \<open>The \<open>for result in results\<close> loop of \<open>dump\<close>, which fills \<open>all_browsers\<close>.\<close>

fun dump_collect ::
  "(pystr \<times> pyval) list \<Rightarrow> (pystr \<times> pystr list option) list \<Rightarrow> exn + (pystr \<times> pyval) list" where
  "dump_collect all_browsers [] = Inr all_browsers"
| "dump_collect all_browsers (result # results) =
     (case snd result of
        None \<Rightarrow> Inl (SystemExit 1)
      | Some versions \<Rightarrow>
          dump_collect (AList.update (fst result) (PList (map PStr versions)) all_browsers) results)"

text \<open>
  \<open>dump(cache_path)\<close>: the result of the call and the file system it leaves. \<open>expand\<close>
  stands for \<open>os.path.expanduser(os.path.expandvars(\<cdot>))\<close>, which depends on the
  environment.
\<close>

definition dump ::
  "(pystr \<Rightarrow> pystr list option) \<Rightarrow> (pystr \<Rightarrow> nat \<Rightarrow> response) \<Rightarrow> (pystr \<Rightarrow> pystr) \<Rightarrow> fs \<Rightarrow> pystr
   \<Rightarrow> ((exn + unit) \<times> fs) option" where
  "dump xpath net expand fsys cache_path =
     (case gather (map (parse xpath net) BROWSERS) of
        None \<Rightarrow> None
      | Some (Inl e) \<Rightarrow> Some (Inl e, fsys)
      | Some (Inr results) \<Rightarrow>
          Some
            (if results = [] then (Inl (SystemExit 1), fsys)
             else
               (case dump_collect [] results of
                  Inl e \<Rightarrow> (Inl e, fsys)
                | Inr all_browsers \<Rightarrow>
                    (let dumped = json_dumps (PDict all_browsers);
                         dir_name = dirname cache_path;
                         prepared =
                           (if dir_name \<noteq> [] \<and> dir_name \<noteq> u ''.'' then
                              (let cache_path' = expand cache_path;
                                   dir_name' = dirname cache_path'
                               in if \<not> exists fsys dir_name' then
                                    (case makedirs fsys dir_name' of
                                       Inl error \<Rightarrow> Inl (Inl (die cache_path' error ''WRITING''), fsys)
                                     | Inr fsys' \<Rightarrow> Inr (cache_path', fsys'))
                                  else Inr (cache_path', fsys))
                            else Inr (cache_path, fsys))
                     in case prepared of
                          Inl failure \<Rightarrow> failure
                        | Inr (cache_path', fsys') \<Rightarrow>
                            (case write_text fsys' cache_path' dumped of
                               Inl error \<Rightarrow> (Inl (die cache_path' error ''WRITING''), fsys')
                             | Inr fsys'' \<Rightarrow> (Inr (), fsys''))))))"


text \<open>
  \<open>load_and_random(browser, cache_path)\<close>. Only the \<open>open\<close> and the \<open>read\<close> are inside
  the \<open>try\<close>; \<open>json.loads\<close>, the subscript and \<open>random.choice\<close> are in its \<open>else\<close>
  branch, where nothing catches what they raise. \<open>rc\<close> is the draw of \<open>random.choice\<close>.
\<close>

definition load_and_random :: "fs \<Rightarrow> nat \<Rightarrow> pystr \<Rightarrow> pystr \<Rightarrow> exn + pyval" where
  "load_and_random fsys rc browser cache_path =
     (case read_text fsys cache_path of
        Inl error \<Rightarrow> Inr (PStr FIXED_UA)
      | Inr data \<Rightarrow>
          (case json_loads data of
             None \<Rightarrow> Inl JSONDecodeError
           | Some loaded \<Rightarrow>
               (case subscript loaded browser of
                  Inl e \<Rightarrow> Inl e
                | Inr versions \<Rightarrow> choice versions rc)))"

text \<open>
  \<open>main(browser, use_cache, cache_path)\<close>. \<open>browser\<close> is \<open>None\<close> or a string; \<open>rw\<close> is
  the draw of \<open>random.choices\<close> and \<open>rc\<close> the one of \<open>random.choice\<close>. For a name that is
  not in \<open>BROWSERS\<close> the source draws \<open>new_browser\<close>, logs it, and goes on with
  \<open>browser\<close>: \<open>new_browser\<close> is not read again. The file system is only read.
\<close>

definition main ::
  "(pystr \<Rightarrow> pystr list option) \<Rightarrow> (pystr \<Rightarrow> nat \<Rightarrow> response) \<Rightarrow> fs \<Rightarrow> real \<Rightarrow> nat
   \<Rightarrow> pystr option \<Rightarrow> bool \<Rightarrow> pystr \<Rightarrow> (exn + pyval) option" where
  "main xpath net fsys rw rc browser use_cache cache_path =
     (let resolved =
            (case browser of
               None \<Rightarrow> map_sum id hd (choices BROWSERS RANDOM_CUM_WEIGHTS rw)
             | Some given \<Rightarrow>
                 (let browser' = lower (strip given)
                  in if browser' \<notin> set BROWSERS then
                       (case choices BROWSERS RANDOM_CUM_WEIGHTS rw of
                          Inl e \<Rightarrow> Inl e
                        | Inr new_browser \<Rightarrow> Inr browser')
                     else Inr browser'))
      in case resolved of
           Inl e \<Rightarrow> Some (Inl e)
         | Inr browser' \<Rightarrow>
             if \<not> use_cache then
               (case parse xpath net browser' of
                  None \<Rightarrow> None
                | Some (Inl e) \<Rightarrow> Some (Inl e)
                | Some (Inr (browser'', versions)) \<Rightarrow>
                    (case versions of
                       None \<Rightarrow> Some (load_and_random fsys rc browser'' cache_path)
                     | Some vs \<Rightarrow> Some (choice (PList (map PStr vs)) rc)))
             else Some (load_and_random fsys rc browser' cache_path))"

section \<open>fake\_useragent/utils.py: the strict program\<close>

text \<open>
  \<open>utils.py\<close> reads its constants from a \<open>settings\<close> module. The one under
  \<open>src/\<close> gives \<open>SHORTCUTS\<close>, \<open>BROWSERS_COUNT_LIMIT\<close> and the form of \<open>DB\<close> (a file in
  the temporary directory); \<open>HTTP_RETRIES\<close>, \<open>HTTP_DELAY\<close> and \<open>CACHE_SERVER\<close> are not
  in it. \<open>HTTP_RETRIES\<close> and the path \<open>DB\<close> are arguments of the functions below
  (\<open>retries\<close>, \<open>DB\<close>); the delay between attempts takes time and changes no result.
\<close>

definition SHORTCUTS :: "(pystr \<times> pystr) list" where
  "SHORTCUTS =
     [(u ''internet explorer'', u ''edge''), (u ''ie'', u ''edge''), (u ''google'', u ''chrome''),
      (u ''googlechrome'', u ''chrome''), (u ''ff'', u ''firefox'')]"

definition BROWSERS_COUNT_LIMIT :: nat where
  "BROWSERS_COUNT_LIMIT = 50"

text \<open>
  What one \<open>urlopen(request).read()\<close> ends in: the body, a \<open>URLError\<close> or \<open>OSError\<close>,
  or another exception. A URL is the function from the number of the attempt (from 1) to
  that outcome.

  \<open>get_loop\<close> is the \<open>while True\<close> loop of \<open>get\<close>; it returns what \<open>get\<close> returns or
  raises, and the number of attempts made. With \<open>HTTP_RETRIES = 0\<close> and a URL that always
  fails the loop never ends: the function is partial.
\<close>

datatype reply = Content pystr | NetError | Raised exn

partial_function (option) get_loop ::
  "nat \<Rightarrow> (nat \<Rightarrow> reply) \<Rightarrow> nat \<Rightarrow> ((exn + pystr) \<times> nat) option" where
  "get_loop retries url attempt =
     (let attempt' = attempt + 1
      in case url attempt' of
           Content body \<Rightarrow> Some (Inr body, attempt')
         | NetError \<Rightarrow>
             if attempt' = retries
             then Some (Inl (FakeUserAgentError ''Maximum amount of retries reached''), attempt')
             else get_loop retries url attempt'
         | Raised e \<Rightarrow> Some (Inl e, attempt'))"

declare get_loop.simps [code]

definition get :: "nat \<Rightarrow> (nat \<Rightarrow> reply) \<Rightarrow> (exn + pystr) option" where
  "get retries url = map_option fst (get_loop retries url 0)"

text \<open>
  \<open>sub in s\<close> for strings.
\<close>

fun contains :: "pystr \<Rightarrow> pystr \<Rightarrow> bool" where
  "contains sub [] = (sub = [])"
| "contains sub (c # cs) = (take (length sub) (c # cs) = sub \<or> contains sub cs)"

text \<open>
  The \<open>for browser in browsers_iter\<close> loop of \<open>get_browser_versions\<close>, over the
  texts \<open>group(1)\<close> of the matches.
\<close>

fun versions_loop :: "pystr list \<Rightarrow> pystr list \<Rightarrow> pystr list" where
  "versions_loop browsers [] = browsers"
| "versions_loop browsers (m # ms) =
     (if contains (u ''more'') (lower m) then versions_loop browsers ms
      else
        (let browsers' = browsers @ [m]
         in if length browsers' = BROWSERS_COUNT_LIMIT then browsers'
            else versions_loop browsers' ms))"

text \<open>
  \<open>get_browser_versions(browser)\<close>. \<open>pages\<close> gives the URL of a browser's page.
  \<open>finditer\<close> stands for the decoding of the body, the two \<open>split\<close>s and
  \<open>re.finditer\<close>: the texts of the matches, or \<open>None\<close> when the page has no list
  division and the subscript \<open>[1]\<close> raises \<open>IndexError\<close>. The message of the last error
  is kept without the name it is formatted with.
\<close>

definition get_browser_versions ::
  "nat \<Rightarrow> (pystr \<Rightarrow> nat \<Rightarrow> reply) \<Rightarrow> (pystr \<Rightarrow> pystr list option) \<Rightarrow> pystr
   \<Rightarrow> (exn + pystr list) option" where
  "get_browser_versions retries pages finditer browser =
     (case get retries (pages browser) of
        None \<Rightarrow> None
      | Some (Inl e) \<Rightarrow> Some (Inl e)
      | Some (Inr html) \<Rightarrow>
          Some (case finditer html of
                  None \<Rightarrow> Inl IndexError
                | Some browsers_iter \<Rightarrow>
                    (let browsers = versions_loop [] browsers_iter
                     in if browsers = [] then Inl (FakeUserAgentError ''No browsers version found'')
                        else Inr browsers)))"

text \<open>
  \<open>get_cache_server()\<close>: \<open>server\<close> is the URL \<open>settings.CACHE_SERVER\<close>.
\<close>

definition get_cache_server :: "nat \<Rightarrow> (nat \<Rightarrow> reply) \<Rightarrow> (exn + pyval) option" where
  "get_cache_server retries server =
     (case get retries server of
        None \<Rightarrow> None
      | Some (Inl e) \<Rightarrow> Some (Inl e)
      | Some (Inr data) \<Rightarrow>
          Some (case json_loads data of
                  None \<Rightarrow> Inl (FakeUserAgentError ''Can not load data from cache server'')
                | Some loaded \<Rightarrow> Inr loaded))"

text \<open>
  \<open>load(use_cache_server)\<close>. The local list \<open>get_browsers\<close> pairs the names with the
  percentages as text; \<open>int(float(percent) * 10)\<close> is double arithmetic, tabulated here for
  the five texts of the list (807, 56, 61, 37, 24). \<open>str_nat\<close> is \<open>str\<close> of a natural
  number, \<open>add_randomize\<close> the inner loop and \<open>load_loop\<close> the outer one.
\<close>

definition get_browsers :: "(pystr \<times> pystr) list" where
  "get_browsers =
     [(u ''Chrome'', u '' 80.7''), (u ''Edge'', u '' 5.6''), (u ''Firefox'', u '' 6.1''),
      (u ''Safari'', u '' 3.7''), (u ''Opera'', u '' 2.4'')]"

definition int_float_times_10 :: "pystr \<Rightarrow> nat" where
  "int_float_times_10 percent =
     (if percent = u '' 80.7'' then 807
      else if percent = u '' 5.6'' then 56
      else if percent = u '' 6.1'' then 61
      else if percent = u '' 3.7'' then 37
      else if percent = u '' 2.4'' then 24
      else 0)"

fun str_nat :: "nat \<Rightarrow> pystr" where
  "str_nat n = (if n < 10 then [48 + n] else str_nat (n div 10) @ [48 + n mod 10])"

declare str_nat.simps [simp del]

fun add_randomize :: "nat \<Rightarrow> pystr \<Rightarrow> (pystr \<times> pyval) list \<Rightarrow> (pystr \<times> pyval) list" where
  "add_randomize 0 browser randomize_dict = randomize_dict"
| "add_randomize (Suc k) browser randomize_dict =
     add_randomize k browser
       (AList.update (str_nat (length randomize_dict)) (PStr browser) randomize_dict)"

fun load_loop ::
  "nat \<Rightarrow> (pystr \<Rightarrow> nat \<Rightarrow> reply) \<Rightarrow> (pystr \<Rightarrow> pystr list option) \<Rightarrow> (pystr \<times> pystr) list
   \<Rightarrow> (pystr \<times> pyval) list \<Rightarrow> (pystr \<times> pyval) list
   \<Rightarrow> (exn + (pystr \<times> pyval) list \<times> (pystr \<times> pyval) list) option" where
  "load_loop retries pages finditer [] browsers_dict randomize_dict =
     Some (Inr (browsers_dict, randomize_dict))"
| "load_loop retries pages finditer (item # items) browsers_dict randomize_dict =
     (let browser = lower (strip (fst item));
          percent = snd item
      in case get_browser_versions retries pages finditer browser of
           None \<Rightarrow> None
         | Some (Inl exc) \<Rightarrow> Some (Inl exc)
         | Some (Inr versions) \<Rightarrow>
             load_loop retries pages finditer items
               (AList.update browser (PList (map PStr versions)) browsers_dict)
               (add_randomize (int_float_times_10 percent) browser randomize_dict))"

definition load ::
  "nat \<Rightarrow> (pystr \<Rightarrow> nat \<Rightarrow> reply) \<Rightarrow> (nat \<Rightarrow> reply) \<Rightarrow> (pystr \<Rightarrow> pystr list option) \<Rightarrow> bool
   \<Rightarrow> (exn + pyval) option" where
  "load retries pages server finditer use_cache_server =
     (case load_loop retries pages finditer get_browsers [] [] of
        None \<Rightarrow> None
      | Some (Inl exc) \<Rightarrow>
          if \<not> use_cache_server then Some (Inl exc) else get_cache_server retries server
      | Some (Inr (browsers_dict, randomize_dict)) \<Rightarrow>
          Some (Inr (PDict [(u ''browsers'', PDict browsers_dict),
                            (u ''randomize'', PDict randomize_dict)])))"

text \<open>
  \<open>write(path, data)\<close> and \<open>read(path)\<close> (\<open>write\<close> is a keyword of Isabelle, hence
  the suffix).
\<close>

definition write_cache :: "fs \<Rightarrow> pystr \<Rightarrow> pyval \<Rightarrow> exn + fs" where
  "write_cache fsys path data = write_text fsys path (json_dumps data)"

definition read_cache :: "fs \<Rightarrow> pystr \<Rightarrow> exn + pyval" where
  "read_cache fsys path =
     (case read_text fsys path of
        Inl e \<Rightarrow> Inl e
      | Inr data \<Rightarrow> (case json_loads data of None \<Rightarrow> Inl JSONDecodeError | Some v \<Rightarrow> Inr v))"

text \<open>
  \<open>get_fake_useragent(browser, use_cache)\<close>. The model returns what the function prints
  or raises, the file system it leaves, and the calls of \<open>write\<close> and \<open>read\<close> it made, in
  order. \<open>cached_data\<close> is the first block of the function (the \<open>if use_cache\<close>
  statement, which binds \<open>data\<close>); \<open>r1\<close> and \<open>r2\<close> are the draws of the two
  \<open>random.choice\<close> calls. \<open>browser\<close> is any Python value. A key that is not a string is
  answered with \<open>TypeError\<close> by \<open>subscript_by\<close>.
\<close>

datatype io = Wrote pystr | ReadFrom pystr

definition cached_data ::
  "nat \<Rightarrow> (pystr \<Rightarrow> nat \<Rightarrow> reply) \<Rightarrow> (nat \<Rightarrow> reply) \<Rightarrow> (pystr \<Rightarrow> pystr list option) \<Rightarrow> pystr
   \<Rightarrow> fs \<Rightarrow> bool \<Rightarrow> ((exn + pyval) \<times> fs \<times> io list) option" where
  "cached_data retries pages server finditer DB fsys use_cache =
     (if use_cache then
        (let path = DB
         in if isfile fsys path then Some (read_cache fsys path, fsys, [ReadFrom path])
            else
              (case load retries pages server finditer True of
                 None \<Rightarrow> None
               | Some (Inl e) \<Rightarrow> Some (Inl e, fsys, [])
               | Some (Inr loaded) \<Rightarrow>
                   (case write_cache fsys path loaded of
                      Inl e \<Rightarrow> Some (Inl e, fsys, [Wrote path])
                    | Inr fsys' \<Rightarrow> Some (read_cache fsys' path, fsys', [Wrote path, ReadFrom path]))))
      else
        (case load retries pages server finditer True of
           None \<Rightarrow> None
         | Some data \<Rightarrow> Some (data, fsys, [])))"

definition bind_exn :: "exn + 'a \<Rightarrow> ('a \<Rightarrow> exn + 'b) \<Rightarrow> exn + 'b" where
  "bind_exn r f = (case r of Inl e \<Rightarrow> Inl e | Inr x \<Rightarrow> f x)"

definition dict_values :: "pyval \<Rightarrow> exn + pyval list" where
  "dict_values v = (case v of PDict d \<Rightarrow> Inr (map snd d) | _ \<Rightarrow> Inl AttributeError)"

definition dict_keys :: "pyval \<Rightarrow> exn + pystr list" where
  "dict_keys v = (case v of PDict d \<Rightarrow> Inr (map fst d) | _ \<Rightarrow> Inl AttributeError)"

definition subscript_by :: "pyval \<Rightarrow> pyval \<Rightarrow> exn + pyval" where
  "subscript_by v key = (case key of PStr k \<Rightarrow> subscript v k | _ \<Rightarrow> Inl TypeError)"

definition get_fake_useragent ::
  "nat \<Rightarrow> (pystr \<Rightarrow> nat \<Rightarrow> reply) \<Rightarrow> (nat \<Rightarrow> reply) \<Rightarrow> (pystr \<Rightarrow> pystr list option) \<Rightarrow> pystr
   \<Rightarrow> fs \<Rightarrow> nat \<Rightarrow> nat \<Rightarrow> pyval \<Rightarrow> bool \<Rightarrow> ((exn + pyval) \<times> fs \<times> io list) option" where
  "get_fake_useragent retries pages server finditer DB fsys r1 r2 browser use_cache =
     (case cached_data retries pages server finditer DB fsys use_cache of
        None \<Rightarrow> None
      | Some (Inl e, fsys', trace) \<Rightarrow> Some (Inl e, fsys', trace)
      | Some (Inr data, fsys', trace) \<Rightarrow>
          Some
            (bind_exn (subscript data (u ''browsers'')) (\<lambda>browsers.
             bind_exn (subscript data (u ''randomize'')) (\<lambda>randomized.
             bind_exn (dict_values randomized) (\<lambda>randomize.
             bind_exn
               (case browser of
                  PNone \<Rightarrow> choice (PList randomize) r1
                | PStr given \<Rightarrow>
                    (let browser' = lower (strip given);
                         browser'' = (case map_of SHORTCUTS browser' of
                                        None \<Rightarrow> browser' | Some canonical \<Rightarrow> canonical)
                     in bind_exn (dict_keys browsers) (\<lambda>keys.
                          if browser'' \<notin> set keys
                          then Inl (FakeUserAgentError ''This browser is not supported.'')
                          else Inr (PStr browser'')))
                | _ \<Rightarrow> Inl (FakeUserAgentError ''Please use a valid browser name.''))
               (\<lambda>browser'.
             bind_exn (subscript_by browsers browser') (\<lambda>versions. choice versions r2))))),
             fsys', trace))"

text \<open>A complete cache, one entry per browser, for the examples.\<close>

definition sample_catalog :: pyval where
  "sample_catalog =
     PDict [(u ''chrome'', PList [PStr (u ''UA-chrome'')]),
            (u ''edge'', PList [PStr (u ''UA-edge'')]),
            (u ''firefox'', PList [PStr (u ''UA-firefox'')]),
            (u ''safari'', PList [PStr (u ''UA-safari'')]),
            (u ''opera'', PList [PStr (u ''UA-opera'')])]"

text \<open>A small record of the strict program, for the examples.\<close>

definition sample_db :: pyval where
  "sample_db =
     PDict [(u ''browsers'', PDict [(u ''chrome'', PList [PStr (u ''UA-chrome'')])]),
            (u ''randomize'', PDict [(u ''0'', PStr (u ''chrome''))])]"

section \<open>The scanner consumes what it reads\<close>

lemma match_number_shorter: "match_number s = Some (lexeme, r) \<Longrightarrow> length r < length s"
proof -
  assume m: "match_number s = Some (lexeme, r)"
  define sign where "sign = (if take 1 s = [45] then [45] else [] :: pystr)"
  define r0 where "r0 = drop (length sign) s"
  define digits where "digits = takeWhile isdigit r0"
  define ipart where "ipart = (if take 1 digits = [48] then [48] else digits)"
  define r1 where "r1 = drop (length ipart) r0"
  define fd where "fd = takeWhile isdigit (drop 1 r1)"
  define frac where "frac = (if take 1 r1 = [46] \<and> fd \<noteq> [] then 46 # fd else [])"
  define r2 where "r2 = drop (length frac) r1"
  define r2' where "r2' = drop 1 r2"
  define sg where "sg = (if take 1 r2' = [43] \<or> take 1 r2' = [45] then take 1 r2' else [])"
  define ed where "ed = takeWhile isdigit (drop (length sg) r2')"
  define ex where "ex = (if (take 1 r2 = [101] \<or> take 1 r2 = [69]) \<and> ed \<noteq> []
                      then take 1 r2 @ sg @ ed else [])"
  have e: "match_number s = (if digits = [] then None
                             else Some (sign @ ipart @ frac @ ex, drop (length ex) r2))"
    unfolding match_number_def Let_def sign_def r0_def digits_def ipart_def r1_def fd_def
      frac_def r2_def r2'_def sg_def ed_def ex_def ..
  with m have d: "digits \<noteq> []" and r: "r = drop (length ex) r2"
    by (simp_all split: if_split_asm)
  have i: "ipart \<noteq> []" "length ipart \<le> length digits"
    using d unfolding ipart_def by (auto simp: Suc_le_eq)
  have "length digits \<le> length r0"
    unfolding digits_def by (rule length_takeWhile_le)
  with i have l1: "length r1 < length r0"
    unfolding r1_def by (cases ipart) auto
  have l0: "length r0 \<le> length s" unfolding r0_def by simp
  have "length r \<le> length r1" unfolding r r2_def by simp
  with l1 l0 show ?thesis by linarith
qed

lemma take_eq_shorter: "take n s = w \<Longrightarrow> w \<noteq> [] \<Longrightarrow> length (drop n s) < length s"
  by (cases n; cases s) auto

lemma scan_atom_shorter: "scan_atom s = Some (v, r) \<Longrightarrow> length r < length s"
proof -
  assume a: "scan_atom s = Some (v, r)"
  have w: "u ''null'' \<noteq> []" "u ''true'' \<noteq> []" "u ''false'' \<noteq> []" "u ''NaN'' \<noteq> []"
    "u ''Infinity'' \<noteq> []" "u ''-Infinity'' \<noteq> []"
    by (simp_all add: u_def)
  show ?thesis
  proof (cases "match_number s")
    case None
    with a show ?thesis
      unfolding scan_atom_def
      by (auto split: if_split_asm intro: take_eq_shorter [OF _ w(1)] take_eq_shorter [OF _ w(2)]
          take_eq_shorter [OF _ w(3)] take_eq_shorter [OF _ w(4)] take_eq_shorter [OF _ w(5)]
          take_eq_shorter [OF _ w(6)])
  next
    case (Some p)
    obtain lexeme rest where p: "p = (lexeme, rest)" by (cases p)
    from match_number_shorter [of s lexeme rest] Some p have "length rest < length s" by simp
    with a Some p show ?thesis
      unfolding scan_atom_def
      by (auto split: if_split_asm intro: take_eq_shorter [OF _ w(1)] take_eq_shorter [OF _ w(2)]
          take_eq_shorter [OF _ w(3)])
  qed
qed


lemma parse_array_shorter: "parse_array s = Some (vs, rest) \<Longrightarrow> length rest < length s"
proof (induction "length s" arbitrary: s vs rest rule: less_induct)
  case less
  from less.prems obtain v r where v: "scan_once s = Some (v, r)" and g: "length r < length s"
    by (subst (asm) parse_array.simps) (auto split: option.splits prod.splits if_split_asm)
  from less.prems v g obtain c r1 where c: "skip_ws r = c # r1"
    by (subst (asm) parse_array.simps) (auto split: list.splits)
  then have l: "length r1 < length r" by (rule skip_ws_Cons_shorter)
  show ?case
  proof (cases "c = 93")
    case True
    with less.prems v g c have "rest = r1"
      by (subst (asm) parse_array.simps) simp
    with l g show ?thesis by simp
  next
    case False
    with less.prems v g c obtain vals where
      "parse_array (skip_ws r1) = Some (vals, rest)"
      by (subst (asm) parse_array.simps) (auto split: if_split_asm)
    moreover have "length (skip_ws r1) < length s"
      using length_skip_ws [of r1] l g by simp
    ultimately have "length rest < length (skip_ws r1)"
      using less.hyps by blast
    with length_skip_ws [of r1] l g show ?thesis by simp
  qed
qed

lemma parse_object_shorter: "parse_object s = Some (kvs, rest) \<Longrightarrow> length rest < length s"
proof (induction "length s" arbitrary: s kvs rest rule: less_induct)
  case less
  from less.prems obtain key r where k: "scanstring s = Some (key, r)"
    by (subst (asm) parse_object.simps) (auto split: option.splits)
  then have lr: "length r < length s" by (rule scanstring_shorter)
  from less.prems k obtain c r1 where c: "skip_ws r = c # r1" "c = 58"
    by (subst (asm) parse_object.simps) (auto split: list.splits if_split_asm)
  then have l1: "length r1 < length r" using skip_ws_Cons_shorter by blast
  from less.prems k c obtain v r2 where v: "scan_once (skip_ws r1) = Some (v, r2)"
    and g: "length r2 < length (skip_ws r1)"
    by (subst (asm) parse_object.simps) (auto split: option.splits if_split_asm)
  from less.prems k c v g obtain c2 r3 where c2: "skip_ws r2 = c2 # r3"
    by (subst (asm) parse_object.simps) (auto split: list.splits)
  then have l3: "length r3 < length r2" by (rule skip_ws_Cons_shorter)
  have b: "length r3 < length s"
    using l3 g length_skip_ws [of r1] l1 lr by simp
  show ?case
  proof (cases "c2 = 125")
    case True
    with less.prems k c v g c2 have "rest = r3"
      by (subst (asm) parse_object.simps) simp
    with b show ?thesis by simp
  next
    case False
    with less.prems k c v g c2 obtain c3 r4 pairs where
      c3: "skip_ws r3 = c3 # r4" and p: "parse_object r4 = Some (pairs, rest)"
      by (subst (asm) parse_object.simps) (auto split: list.splits if_split_asm)
    from c3 have l4: "length r4 < length r3" by (rule skip_ws_Cons_shorter)
    with b have "length r4 < length s" by simp
    with p have "length rest < length r4" using less.hyps by blast
    with l4 b show ?thesis by simp
  qed
qed

lemma scan_once_shorter: "scan_once s = Some (v, r) \<Longrightarrow> length r < length s"
proof (cases s)
  case Nil
  assume "scan_once s = Some (v, r)"
  with Nil show ?thesis by (subst (asm) scan_once.simps) simp
next
  case (Cons c cs)
  assume a: "scan_once s = Some (v, r)"
  consider (str) "c = 34" | (obj) "c = 123" | (arr) "c = 91" | (atom) "c \<noteq> 34" "c \<noteq> 123" "c \<noteq> 91"
    by blast
  then show ?thesis
  proof cases
    case str
    with a Cons obtain x where "scanstring cs = Some (x, r)"
      by (subst (asm) scan_once.simps) auto
    from scanstring_shorter [OF this] Cons show ?thesis by simp
  next
    case obj
    with a Cons obtain c1 r1 where c1: "skip_ws cs = c1 # r1"
      by (subst (asm) scan_once.simps) (auto split: list.splits)
    then have l: "length r1 < length cs" by (rule skip_ws_Cons_shorter)
    from a Cons obj c1 have "r = r1 \<or> (\<exists>pairs. parse_object r1 = Some (pairs, r))"
      by (subst (asm) scan_once.simps) (auto split: if_split_asm)
    with l parse_object_shorter Cons show ?thesis by fastforce
  next
    case arr
    with a Cons obtain c1 r1 where c1: "skip_ws cs = c1 # r1"
      by (subst (asm) scan_once.simps) (auto split: list.splits)
    then have l: "length r1 < length cs" by (rule skip_ws_Cons_shorter)
    from a Cons arr c1 have "r = r1 \<or> (\<exists>values. parse_array (c1 # r1) = Some (values, r))"
      by (subst (asm) scan_once.simps) (auto split: if_split_asm)
    with l parse_array_shorter [of "c1 # r1"] Cons show ?thesis by fastforce
  next
    case atom
    with a Cons have "scan_atom s = Some (v, r)"
      by (subst (asm) scan_once.simps) simp
    then show ?thesis by (rule scan_atom_shorter)
  qed
qed

section \<open>The JSON round trip\<close>

lemma hexval_hexdigit: "d < 16 \<Longrightarrow> hexval (hexdigit d) = Some d"
  by (auto simp: hexval_def hexdigit_def)

lemma hex_split: "(n::nat) = (n div 4096) * 4096 + (n div 256 mod 16) * 256 + (n div 16 mod 16) * 16 + n mod 16"
proof -
  have a: "n = 16 * (n div 16) + n mod 16" by simp
  have "n div 16 div 16 = n div 256" by (simp add: div_mult2_eq[symmetric])
  then have b: "n div 16 = 16 * (n div 256) + n div 16 mod 16"
    using mult_div_mod_eq [of 16 "n div 16"] by simp
  have "n div 256 div 16 = n div 4096" by (simp add: div_mult2_eq[symmetric])
  then have c: "n div 256 = 16 * (n div 4096) + n div 256 mod 16"
    using mult_div_mod_eq [of 16 "n div 256"] by simp
  show ?thesis using a b c by linarith
qed

lemma decode_hex4: "n < 65536 \<Longrightarrow> decode_uXXXX (hex4 n @ r) = Some n"
proof -
  assume n: "n < 65536"
  have d3: "n div 4096 < 16" using n by simp
  have e: "hexval (hexdigit (n div 4096)) = Some (n div 4096)"
    "hexval (hexdigit (n div 256 mod 16)) = Some (n div 256 mod 16)"
    "hexval (hexdigit (n div 16 mod 16)) = Some (n div 16 mod 16)"
    "hexval (hexdigit (n mod 16)) = Some (n mod 16)"
    using d3 by (simp_all add: hexval_hexdigit)
  have d3': "n div 4096 mod 16 = n div 4096" using d3 by simp
  show ?thesis
    unfolding decode_uXXXX_def hex4_def d3'
    using hex_split [of n] by (simp add: e)
qed


lemma length_hex4: "length (hex4 n) = 4"
  by (simp add: hex4_def)

lemma scanstring_u_bmp:
  assumes "n < 65536" and "n < 55296 \<or> 56319 < n"
  shows "scanstring ([92, 117] @ hex4 n @ r) = cons_char n (scanstring r)"
  using assms by (auto simp add: decode_hex4 length_hex4)

lemma scanstring_u_pair:
  assumes "n < 1048576"
  shows "scanstring ([92, 117] @ hex4 (55296 + (n div 1024) mod 1024) @ [92, 117]
            @ hex4 (56320 + n mod 1024) @ r) = cons_char (65536 + n) (scanstring r)"
proof -
  let ?s1 = "55296 + (n div 1024) mod 1024"
  let ?s2 = "56320 + n mod 1024"
  have s1: "?s1 < 65536" "55296 \<le> ?s1" "?s1 \<le> 56319" by simp_all
  have s2: "?s2 < 65536" "56320 \<le> ?s2" "?s2 \<le> 57343" by simp_all
  have hi: "n div 1024 mod 1024 = n div 1024" using assms by simp
  have m: "n mod 1024 \<le> 1023" "n div 1024 mod 1024 \<le> 1023"
    using mod_less_divisor [of 1024 n] mod_less_divisor [of 1024 "n div 1024"] by linarith+
  have val: "(?s1 - 55296) * 1024 + (?s2 - 56320) = n"
    unfolding hi by simp
  have d1: "decode_uXXXX (hex4 ?s1 @ 92 # 117 # hex4 ?s2 @ r) = Some ?s1"
    using decode_hex4 [OF s1(1)] by simp
  have d2: "decode_uXXXX (hex4 ?s2 @ r) = Some ?s2"
    using decode_hex4 [OF s2(1)] by simp
  have t: "take 2 (drop 4 (hex4 ?s1 @ 92 # 117 # hex4 ?s2 @ r)) = [92, 117]"
    by (simp add: length_hex4)
  have dr: "drop 6 (hex4 ?s1 @ 92 # 117 # hex4 ?s2 @ r) = hex4 ?s2 @ r"
    "drop 10 (hex4 ?s1 @ 92 # 117 # hex4 ?s2 @ r) = r"
    by (simp_all add: length_hex4)
  have "scanstring (92 # 117 # hex4 ?s1 @ 92 # 117 # hex4 ?s2 @ r)
        = cons_char (65536 + ((?s1 - 55296) * 1024 + (?s2 - 56320))) (scanstring r)"
    by (subst scanstring.simps) (simp add: d1 d2 length_hex4 m del: scanstring.simps)
  then show ?thesis
    using hi by simp
qed

lemma scanstring_escape_char:
  assumes "scalar c"
  shows "scanstring (escape_char c @ r) = cons_char c (scanstring r)"
proof -
  consider (short) "c = 92 \<or> c = 34 \<or> c = 8 \<or> c = 12 \<or> c = 10 \<or> c = 13 \<or> c = 9"
    | (plain) "32 \<le> c" "c \<le> 126" "c \<noteq> 92" "c \<noteq> 34"
    | (bmp) "c < 32 \<or> 126 < c" "c < 65536" "c \<noteq> 8" "c \<noteq> 12" "c \<noteq> 10" "c \<noteq> 13" "c \<noteq> 9"
    | (pair) "65536 \<le> c"
    by linarith
  then show ?thesis
  proof cases
    case short
    then show ?thesis
      by (auto simp: escape_char_def backslash_def)
  next
    case plain
    then show ?thesis
      by (simp add: escape_char_def)
  next
    case bmp
    have "c < 55296 \<or> 56319 < c" using assms by (auto simp: scalar_def)
    from scanstring_u_bmp [OF bmp(2) this, of r] bmp
    show ?thesis by (auto simp: escape_char_def)
  next
    case pair
    then have n: "c - 65536 < 1048576" using assms by (auto simp: scalar_def)
    from scanstring_u_pair [OF n, of r] pair
    show ?thesis by (simp add: escape_char_def Let_def)
  qed
qed

lemma scanstring_encode:
  "wf_str s \<Longrightarrow> scanstring (concat (map escape_char s) @ 34 # rest) = Some (s, rest)"
  by (induction s) (simp_all add: wf_str_def scanstring_escape_char cons_char_def del: scanstring.simps, simp)

lemma update_fresh: "k \<notin> fst ` set d \<Longrightarrow> AList.update k v d = d @ [(k, v)]"
  by (induction d) auto

lemma foldl_update_distinct:
  "distinct (map fst (d @ ps)) \<Longrightarrow> foldl (\<lambda>d (k, v). AList.update k v d) d ps = d @ ps"
proof (induction ps arbitrary: d)
  case Nil
  then show ?case by simp
next
  case (Cons p ps)
  obtain k v where p: "p = (k, v)" by (cases p)
  have "k \<notin> fst ` set d" using Cons.prems p by auto
  then have "AList.update k v d = d @ [(k, v)]" by (rule update_fresh)
  moreover have "distinct (map fst ((d @ [(k, v)]) @ ps))" using Cons.prems p by simp
  ultimately show ?case using Cons.IH [of "d @ [(k, v)]"] p by simp
qed

lemma dict_distinct: "distinct (map fst kvs) \<Longrightarrow> dict kvs = kvs"
  using foldl_update_distinct [of "[]" kvs] by (simp add: dict_def)

lemma json_dumps_start: "wf_val v \<Longrightarrow> \<exists>c cs. json_dumps v = c # cs \<and> opener c"
  by (cases v) (auto simp: u_def opener_def encode_basestring_ascii_def)

lemma skip_ws_opener: "opener c \<Longrightarrow> skip_ws (c # r) = c # r"
  by (auto simp: skip_ws_def is_ws_def opener_def)

lemma skip_ws_space: "skip_ws (32 # r) = skip_ws r"
  by (simp add: skip_ws_def is_ws_def)

lemma skip_ws_punct:
  "skip_ws (44 # r) = 44 # r" "skip_ws (58 # r) = 58 # r"
  "skip_ws (93 # r) = 93 # r" "skip_ws (125 # r) = 125 # r"
  by (simp_all add: skip_ws_def is_ws_def)

lemma scan_once_str:
  "wf_str s \<Longrightarrow> scan_once (encode_basestring_ascii s @ rest) = Some (PStr s, rest)"
  by (subst scan_once.simps) (simp add: encode_basestring_ascii_def scanstring_encode)

lemma scan_once_atoms:
  "scan_once (u ''null'' @ rest) = Some (PNone, rest)"
  "scan_once (u ''true'' @ rest) = Some (PBool True, rest)"
  "scan_once (u ''false'' @ rest) = Some (PBool False, rest)"
  by (subst scan_once.simps, simp add: u_def scan_atom_def)+

lemma parse_array_last:
  "scan_once s = Some (v, 93 # rest) \<Longrightarrow> Suc (length rest) < length s \<Longrightarrow> parse_array s = Some ([v], rest)"
  by (subst parse_array.simps) (simp add: skip_ws_punct)

lemma parse_array_more:
  "scan_once s = Some (v, 44 # 32 # s') \<Longrightarrow> Suc (Suc (length s')) < length s \<Longrightarrow> skip_ws s' = s'
   \<Longrightarrow> parse_array s' = Some (vs, rest) \<Longrightarrow> parse_array s = Some (v # vs, rest)"
  by (subst parse_array.simps) (simp add: skip_ws_punct skip_ws_space)

lemma parse_object_last:
  "scanstring s = Some (k, 58 # 32 # s') \<Longrightarrow> skip_ws s' = s'
   \<Longrightarrow> scan_once s' = Some (v, 125 # rest) \<Longrightarrow> Suc (length rest) < length s'
   \<Longrightarrow> parse_object s = Some ([(k, v)], rest)"
  by (subst parse_object.simps) (simp add: skip_ws_punct skip_ws_space)

lemma parse_object_more:
  "scanstring s = Some (k, 58 # 32 # s') \<Longrightarrow> skip_ws s' = s'
   \<Longrightarrow> scan_once s' = Some (v, 44 # 32 # 34 # s'') \<Longrightarrow> Suc (Suc (Suc (length s''))) < length s'
   \<Longrightarrow> parse_object s'' = Some (kvs, rest)
   \<Longrightarrow> parse_object s = Some ((k, v) # kvs, rest)"
  by (subst parse_object.simps) (simp add: skip_ws_punct skip_ws_space skip_ws_opener opener_def)


lemma json_dumps_skip: "wf_val v \<Longrightarrow> skip_ws (json_dumps v @ r) = json_dumps v @ r"
  using json_dumps_start [of v] by (auto simp: skip_ws_opener)

lemma json_dumps_nonempty: "wf_val v \<Longrightarrow> 0 < length (json_dumps v)"
  using json_dumps_start [of v] by auto

lemma dumps_list_start:
  "list_all wf_val vs \<Longrightarrow> vs \<noteq> [] \<Longrightarrow> \<exists>c cs. dumps_list vs = c # cs \<and> opener c"
proof (cases vs)
  case Nil
  assume "vs \<noteq> []"
  with Nil show ?thesis by simp
next
  case (Cons w ws)
  assume "list_all wf_val vs"
  with Cons have "wf_val w" by simp
  then obtain c cs where "json_dumps w = c # cs" "opener c"
    using json_dumps_start by blast
  with Cons show ?thesis by (cases ws) auto
qed

lemma dumps_items_start: "kvs \<noteq> [] \<Longrightarrow> dumps_items kvs = 34 # tl (dumps_items kvs)"
proof (cases kvs)
  case Nil
  assume "kvs \<noteq> []"
  with Nil show ?thesis by simp
next
  case (Cons kv rest)
  obtain k v where "kv = (k, v)" by (cases kv)
  with Cons show ?thesis by (cases rest) (auto simp: encode_basestring_ascii_def)
qed

lemma scan_once_list:
  "opener c \<Longrightarrow> parse_array (c # cs) = Some (vs, rest)
   \<Longrightarrow> scan_once (91 # c # cs) = Some (PList vs, rest)"
  by (subst scan_once.simps) (auto simp: skip_ws_opener opener_def)

lemma scan_once_dict:
  "parse_object cs = Some (kvs, rest) \<Longrightarrow> scan_once (123 # 34 # cs) = Some (PDict (dict kvs), rest)"
  by (subst scan_once.simps) (simp add: skip_ws_opener opener_def)

lemma scan_once_empty:
  "scan_once (91 # 93 # rest) = Some (PList [], rest)"
  "scan_once (123 # 125 # rest) = Some (PDict [], rest)"
  by (subst scan_once.simps, simp add: skip_ws_punct)+

lemma roundtrip_aux:
  "wf_val v \<Longrightarrow> scan_once (json_dumps v @ rest) = Some (v, rest)"
  "list_all wf_val vs \<Longrightarrow> vs \<noteq> [] \<Longrightarrow> parse_array (dumps_list vs @ 93 # rest) = Some (vs, rest)"
  "list_all (\<lambda>kv. wf_str (fst kv) \<and> wf_val (snd kv)) kvs \<Longrightarrow> kvs \<noteq> []
     \<Longrightarrow> parse_object (tl (dumps_items kvs) @ 125 # rest) = Some (kvs, rest)"
proof (induction v and vs and kvs arbitrary: rest and rest and rest
    rule: json_dumps_dumps_list_dumps_items.induct)
  case 1
  show ?case by (simp add: scan_once_atoms)
next
  case (2 b)
  show ?case by (cases b) (simp_all add: scan_once_atoms)
next
  case (3 lexeme)
  then show ?case by simp
next
  case (4 s)
  then show ?case by (simp add: scan_once_str)
next
  case (5 vs)
  show ?case
  proof (cases "vs = []")
    case True
    then show ?thesis by (simp add: u_def scan_once_empty)
  next
    case False
    from "5.prems" have wf: "list_all wf_val vs" by simp
    obtain c cs where st: "dumps_list vs = c # cs" "opener c"
      using dumps_list_start [OF wf False] by blast
    have "parse_array (c # cs @ 93 # rest) = Some (vs, rest)"
      using "5.IH" [OF wf False, of rest] st by simp
    from scan_once_list [OF st(2) this] st show ?thesis by (simp add: u_def)
  qed
next
  case (6 kvs)
  show ?case
  proof (cases "kvs = []")
    case True
    then show ?thesis by (simp add: u_def scan_once_empty dict_def)
  next
    case False
    from "6.prems" have wf: "list_all (\<lambda>kv. wf_str (fst kv) \<and> wf_val (snd kv)) kvs"
      and d: "distinct (map fst kvs)" by simp_all
    have "parse_object (tl (dumps_items kvs) @ 125 # rest) = Some (kvs, rest)"
      using "6.IH" [OF wf False] .
    moreover obtain t where t: "dumps_items kvs = 34 # t"
      using dumps_items_start [OF False] by blast
    ultimately have "parse_object (t @ 125 # rest) = Some (kvs, rest)" by simp
    from scan_once_dict [OF this] dict_distinct [OF d] t
    show ?thesis by (simp add: u_def)
  qed
next
  case 7
  then show ?case by simp
next
  case (8 v)
  then have wf: "wf_val v" by simp
  show ?case
    using "8.IH" [OF wf, of "93 # rest"] json_dumps_nonempty [OF wf]
    by (simp add: parse_array_last)
next
  case (9 v w vs)
  then have wf: "wf_val v" and wfs: "list_all wf_val (w # vs)" by simp_all
  let ?s' = "dumps_list (w # vs) @ 93 # rest"
  obtain c cs where st: "dumps_list (w # vs) = c # cs" "opener c"
    using dumps_list_start [OF wfs] by blast
  have sk: "skip_ws ?s' = ?s'" using st by (simp add: skip_ws_opener)
  have a: "scan_once (json_dumps v @ 44 # 32 # ?s') = Some (v, 44 # 32 # ?s')"
    using "9.IH"(1) [OF wf] .
  have b: "parse_array ?s' = Some (w # vs, rest)"
    using "9.IH"(2) [OF wfs] by simp
  have l: "Suc (Suc (length ?s')) < length (json_dumps v @ 44 # 32 # ?s')"
    using json_dumps_nonempty [OF wf] by simp
  from parse_array_more [OF a l sk b] show ?case by (simp add: u_def)
next
  case 10
  then show ?case by simp
next
  case (11 k v)
  then have wk: "wf_str k" and wf: "wf_val v" by simp_all
  let ?s' = "json_dumps v @ 125 # rest"
  have a: "scanstring (concat (map escape_char k) @ 34 # 58 # 32 # ?s') = Some (k, 58 # 32 # ?s')"
    using scanstring_encode [OF wk] .
  have b: "scan_once ?s' = Some (v, 125 # rest)" using "11.IH" [OF wf] .
  have l: "Suc (length rest) < length ?s'" using json_dumps_nonempty [OF wf] by simp
  from parse_object_last [OF a json_dumps_skip [OF wf] b l]
  show ?case by (simp add: u_def encode_basestring_ascii_def)
next
  case (12 k v kw kvs)
  then have wk: "wf_str k" and wf: "wf_val v"
    and wfs: "list_all (\<lambda>kv. wf_str (fst kv) \<and> wf_val (snd kv)) (kw # kvs)" by simp_all
  obtain t where t: "dumps_items (kw # kvs) = 34 # t"
    using dumps_items_start [of "kw # kvs"] by simp
  let ?s'' = "t @ 125 # rest"
  let ?s' = "json_dumps v @ 44 # 32 # 34 # ?s''"
  have a: "scanstring (concat (map escape_char k) @ 34 # 58 # 32 # ?s') = Some (k, 58 # 32 # ?s')"
    using scanstring_encode [OF wk] .
  have b: "scan_once ?s' = Some (v, 44 # 32 # 34 # ?s'')" using "12.IH"(1) [OF wf] .
  have c: "parse_object ?s'' = Some (kw # kvs, rest)" using "12.IH"(2) [OF wfs, of rest] t by simp
  have l: "Suc (Suc (Suc (length ?s''))) < length ?s'" using json_dumps_nonempty [OF wf] by simp
  have "tl (dumps_items ((k, v) # kw # kvs)) @ 125 # rest
        = concat (map escape_char k) @ 34 # 58 # 32 # ?s'"
    by (simp add: t u_def encode_basestring_ascii_def)
  with parse_object_more [OF a json_dumps_skip [OF wf] b l c]
  show ?case by simp
qed


lemma skip_ws_Nil: "skip_ws [] = []"
  by (simp add: skip_ws_def)

lemma json_roundtrip: "wf_val v \<Longrightarrow> json_loads (json_dumps v) = Some v"
  using roundtrip_aux(1) [of v "[]"] by (simp add: json_loads_def json_dumps_skip [of v "[]", simplified] skip_ws_Nil)

section \<open>Draws, fetches and the selector of user\_agent.py\<close>

lemma bisect_bounds: "lo \<le> hi \<Longrightarrow> lo \<le> bisect a x lo hi \<and> bisect a x lo hi \<le> hi"
proof (induction a x lo hi rule: bisect.induct)
  case (1 a x lo hi)
  show ?case
  proof (cases "lo < hi")
    case False
    with "1.prems" show ?thesis by (simp add: bisect.simps)
  next
    case True
    let ?mid = "(lo + hi) div 2"
    have m: "lo \<le> ?mid" "?mid < hi" using True by auto
    show ?thesis
    proof (cases "x < real_of_int (a ! ?mid)")
      case lt: True
      have "bisect a x lo hi = bisect a x lo ?mid"
        using True lt by (subst bisect.simps) (simp add: Let_def)
      with "1.IH"(1) [OF True refl lt] m show ?thesis by simp
    next
      case ge: False
      have "bisect a x lo hi = bisect a x (?mid + 1) hi"
        using True ge by (subst bisect.simps) (simp add: Let_def)
      with "1.IH"(2) [OF True refl ge] m show ?thesis by simp
    qed
  qed
qed

lemma accumulate_weights: "accumulate RANDOM_CUM_WEIGHTS = [80, 166, 259, 356, 456]"
  by (simp add: accumulate_def RANDOM_CUM_WEIGHTS_def)

lemma length_BROWSERS: "length BROWSERS = 5"
  by (simp add: BROWSERS_def)

lemma choices_canonical:
  "\<exists>b. b \<in> set BROWSERS \<and> choices BROWSERS RANDOM_CUM_WEIGHTS r = Inr [b]"
proof -
  have "bisect [80, 166, 259, 356, 456] (r * 456) 0 4 \<le> 4"
    using bisect_bounds [of 0 4] by simp
  then have "bisect [80, 166, 259, 356, 456] (r * 456) 0 4 < length BROWSERS"
    by (simp add: BROWSERS_def)
  then have "BROWSERS ! bisect [80, 166, 259, 356, 456] (r * 456) 0 4 \<in> set BROWSERS"
    by (rule nth_mem)
  moreover have "choices BROWSERS RANDOM_CUM_WEIGHTS r
        = Inr [BROWSERS ! bisect [80, 166, 259, 356, 456] (r * 456) 0 4]"
    by (simp add: choices_def accumulate_weights Let_def length_BROWSERS)
  ultimately show ?thesis by blast
qed

lemma choices_half: "choices BROWSERS RANDOM_CUM_WEIGHTS (1 / 2) = Inr [u ''firefox'']"
  by (simp add: choices_def accumulate_weights Let_def length_BROWSERS bisect.simps)
     (simp add: BROWSERS_def)

lemma parse_fetch_2:
  "\<exists>result requests. parse_fetch session 2 = Some (result, requests) \<and> requests \<le> 3"
  by (subst parse_fetch.simps) (cases "session 2"; simp add: call_on_error_def)

lemma parse_fetch_1:
  "\<exists>result requests. parse_fetch session 1 = Some (result, requests) \<and> requests \<le> 3"
proof (cases "session 1")
  case Timeout
  then have "parse_fetch session 1 = parse_fetch session 2"
    by (subst parse_fetch.simps) (simp add: call_on_error_def numeral_2_eq_2)
  with parse_fetch_2 [of session] show ?thesis by simp
qed (subst parse_fetch.simps, simp)+

lemma parse_fetch_total:
  "\<exists>result requests. parse_fetch session 0 = Some (result, requests) \<and> requests \<le> 3"
proof (cases "session 0")
  case Timeout
  then have "parse_fetch session 0 = parse_fetch session 1"
    by (subst parse_fetch.simps) (simp add: call_on_error_def)
  with parse_fetch_1 [of session] show ?thesis by simp
qed (subst parse_fetch.simps, simp)+

lemma parse_total: "\<exists>r. parse xpath net browser = Some r"
  using parse_fetch_total [of "net browser"] by (auto simp: parse_def)


lemma bisect_weights:
  "bisect [80, 166, 259, 356, 456] x 0 4 =
     (if x < 80 then 0 else if x < 166 then 1 else if x < 259 then 2 else if x < 356 then 3 else 4)"
  by (simp add: bisect.simps)

lemma chrome_share:
  "(choices BROWSERS RANDOM_CUM_WEIGHTS r = Inr [u ''chrome'']) = (r * 456 < 80)"
  by (simp add: choices_def accumulate_weights Let_def length_BROWSERS bisect_weights)
     (simp add: BROWSERS_def u_def)

text \<open>
  C3 (weighted draw of the browser). The claim: the draw gives chrome 80% of the time, edge
  6%, firefox 7%, safari 4%, opera 3%. \<open>main\<close> passes the cumulative table
  \<open>RANDOM_CUM_WEIGHTS\<close> as \<open>weights\<close>, so \<open>random.choices\<close> accumulates it once more, to
  80, 166, 259, 356, 456. The draw 1/2, which the claim's table gives to chrome, falls on
  firefox; lemma \<open>chrome_share\<close> gives chrome the draws below 80/456.
\<close>

theorem weights_read_as_relative:
  "choices BROWSERS RANDOM_CUM_WEIGHTS (1 / 2) = Inr [u ''firefox'']
   \<and> main xpath net fsys (1 / 2) rc None True cache_path
       = Some (load_and_random fsys rc (u ''firefox'') cache_path)"
  by (simp add: main_def choices_half)

lemma wf_sample_catalog: "wf_val sample_catalog"
  by (simp add: sample_catalog_def wf_str_def scalar_def u_def)

text \<open>
  C4 (a name outside the canonical set). The claim: in lenient mode a random canonical
  browser replaces the name, and the name itself is not used for the lookup. \<open>main\<close>
  draws the substitute and then looks \<open>netscape\<close> up in a complete cache: the call ends in
  \<open>KeyError\<close>, whatever the draws are.
\<close>

theorem unsupported_name_reaches_lookup:
  "main xpath net (Map.empty(u ''ua.json'' \<mapsto> File (json_dumps sample_catalog))) rw rc
      (Some (u ''netscape'')) True (u ''ua.json'') = Some (Inl KeyError)"
proof -
  obtain b where b: "choices BROWSERS RANDOM_CUM_WEIGHTS rw = Inr [b]"
    using choices_canonical by blast
  have n: "lower (strip (u ''netscape'')) = u ''netscape''"
    by (simp add: lower_def strip_def isspace_def lower_cp_def u_def)
  have m: "u ''netscape'' \<notin> set BROWSERS"
    by (simp add: BROWSERS_def u_def)
  have l: "load_and_random (Map.empty(u ''ua.json'' \<mapsto> File (json_dumps sample_catalog))) rc
             (u ''netscape'') (u ''ua.json'') = Inl KeyError"
    by (simp add: load_and_random_def read_text_def json_roundtrip [OF wf_sample_catalog])
       (simp add: subscript_def sample_catalog_def u_def)
  show ?thesis
    by (simp add: main_def n m b l)
qed




section \<open>Forced refresh\<close>

lemma gather_total: "(\<And>t. t \<in> set ts \<Longrightarrow> \<exists>r. t = Some r) \<Longrightarrow> \<exists>rs. gather ts = Some rs"
proof (induction ts)
  case Nil
  then show ?case by simp
next
  case (Cons t ts)
  then obtain r where "t = Some r" by auto
  moreover obtain rs where "gather ts = Some rs" using Cons by auto
  ultimately show ?case by simp
qed

lemma gather_Inl: "gather ts = Some (Inl e) \<Longrightarrow> Some (Inl e) \<in> set ts"
  by (induction ts arbitrary: e) (auto split: option.splits sum.splits)

lemma gather_Inr: "gather ts = Some (Inr xs) \<Longrightarrow> ts = map (\<lambda>x. Some (Inr x)) xs"
  by (induction ts arbitrary: xs) (auto split: option.splits sum.splits)

lemma parse_raises: "parse xpath net browser = Some (Inl e) \<Longrightarrow> e = ParserError"
  by (auto simp: parse_def Let_def split: option.splits if_splits prod.splits)

lemma dump_collect_aborts:
  "r \<in> set results \<Longrightarrow> snd r = None \<Longrightarrow> dump_collect acc results = Inl (SystemExit 1)"
  by (induction results arbitrary: acc) (auto split: option.splits)

text \<open>
  C6 (forced refresh). When the fetch of one browser of \<open>BROWSERS\<close> ends in the failure
  marker (no page, or a page with no entry), \<open>dump\<close> ends in an exception whose exit status
  is 1, and the file system is the one it started with: nothing is created, a cache file
  that was there is as it was.
\<close>

theorem dump_aborts_without_writing:
  assumes "b \<in> set BROWSERS" and "parse xpath net b = Some (Inr (b, None))"
  shows "\<exists>e. dump xpath net expand fsys cache_path = Some (Inl e, fsys) \<and> exit_status e = 1"
proof -
  let ?tasks = "map (parse xpath net) BROWSERS"
  have "\<exists>r. t = Some r" if "t \<in> set ?tasks" for t
    using that parse_total by auto
  then obtain rs where rs: "gather ?tasks = Some rs"
    using gather_total by blast
  show ?thesis
  proof (cases rs)
    case (Inl e)
    with rs have "Some (Inl e) \<in> set ?tasks" using gather_Inl by blast
    then have "e = ParserError" using parse_raises by auto
    with rs Inl show ?thesis by (simp add: dump_def exit_status_def)
  next
    case (Inr results)
    with rs have "?tasks = map (\<lambda>x. Some (Inr x)) results" using gather_Inr by blast
    moreover have "Some (Inr (b, None)) \<in> set ?tasks" using assms by force
    ultimately have "(b, None) \<in> set results" by auto
    then have "dump_collect [] results = Inl (SystemExit 1)"
      by (rule dump_collect_aborts) simp
    with rs Inr show ?thesis by (simp add: dump_def exit_status_def)
  qed
qed

text \<open>
  C6, an instance: the opera page times out three times; the old cache file stays.
\<close>

theorem dump_aborts_without_writing_witness:
  "u ''opera'' \<in> set BROWSERS
   \<and> parse (\<lambda>t. Some [t]) (\<lambda>b n. if b = u ''opera'' then Timeout else Body b) (u ''opera'')
       = Some (Inr (u ''opera'', None))
   \<and> (\<exists>e. dump (\<lambda>t. Some [t]) (\<lambda>b n. if b = u ''opera'' then Timeout else Body b) (\<lambda>p. p)
             (Map.empty(u ''/tmp'' \<mapsto> Dir, u ''/tmp/ua.json'' \<mapsto> File (u ''old'')))
             (u ''/tmp/ua.json'')
           = Some (Inl e, Map.empty(u ''/tmp'' \<mapsto> Dir, u ''/tmp/ua.json'' \<mapsto> File (u ''old'')))
         \<and> exit_status e = 1)"
proof -
  have m: "u ''opera'' \<in> set BROWSERS" by (simp add: BROWSERS_def)
  have p: "parse (\<lambda>t. Some [t]) (\<lambda>b n. if b = u ''opera'' then Timeout else Body b) (u ''opera'')
       = Some (Inr (u ''opera'', None))"
    by (simp add: parse_def parse_fetch.simps call_on_error_def)
  from dump_aborts_without_writing [OF m p] m p show ?thesis by blast
qed

section \<open>Retries and version lists\<close>





lemma versions_loop_inv:
  "length acc < BROWSERS_COUNT_LIMIT \<Longrightarrow>
   length (versions_loop acc ms) \<le> BROWSERS_COUNT_LIMIT
   \<and> set (versions_loop acc ms) \<subseteq> set acc \<union> {m \<in> set ms. \<not> contains (u ''more'') (lower m)}"
proof (induction ms arbitrary: acc)
  case Nil
  then show ?case by simp
next
  case (Cons m ms)
  show ?case
  proof (cases "contains (u ''more'') (lower m)")
    case True
    with Cons.IH [OF Cons.prems] show ?thesis by auto
  next
    case False
    show ?thesis
    proof (cases "length (acc @ [m]) = BROWSERS_COUNT_LIMIT")
      case True
      with False show ?thesis by (auto simp: Let_def)
    next
      case ne: False
      with Cons.prems have "length (acc @ [m]) < BROWSERS_COUNT_LIMIT" by simp
      from Cons.IH [OF this] False ne show ?thesis by (auto simp: Let_def)
    qed
  qed
qed

lemma lower_more: "lower (u ''more'') = u ''more''"
  by (simp add: lower_def lower_cp_def u_def)

lemma contains_lower_more: "contains (u ''more'') v \<Longrightarrow> contains (u ''more'') (lower v)"
proof (induction v)
  case Nil
  then show ?case by (simp add: u_def)
next
  case (Cons c cs)
  have l: "length (u ''more'') = 4" by (simp add: u_def)
  from Cons.prems consider "take 4 (c # cs) = u ''more''" | "contains (u ''more'') cs"
    by (auto simp: l)
  then show ?case
  proof cases
    case 1
    have "take 4 (lower (c # cs)) = lower (take 4 (c # cs))"
      unfolding lower_def by (rule take_map)
    with 1 have "take 4 (lower (c # cs)) = lower (u ''more'')" by simp
    then show ?thesis unfolding lower_more by (simp add: lower_def l)
  next
    case 2
    with Cons.IH show ?thesis by (simp add: lower_def)
  qed
qed

text \<open>
  C8, as stated, fails for \<open>parse\<close>: it cuts the selected text nodes to fifty and filters
  nothing, so a node \<open>more\<close> is an entry of the list it returns.
\<close>

theorem parse_keeps_more_entry:
  "parse (\<lambda>t. Some [u ''more'']) (\<lambda>b n. Body []) (u ''chrome'')
     = Some (Inr (u ''chrome'', Some [u ''more'']))
   \<and> contains (u ''more'') (u ''more'')"
  by (simp add: parse_def parse_fetch.simps browser_num_def u_def)

text \<open>
  C8, amended. A list returned by \<open>parse\<close> is not empty and has at most 50 entries. A
  list returned by \<open>get_browser_versions\<close> is not empty, has at most 50 entries, and none
  contains \<open>more\<close>, in any case of the letters.
\<close>

theorem version_lists_bounded:
  "(parse xpath net b = Some (Inr (b', Some versions)) \<longrightarrow>
      versions \<noteq> [] \<and> length versions \<le> 50)
   \<and> (get_browser_versions retries pages finditer b = Some (Inr browsers) \<longrightarrow>
        browsers \<noteq> [] \<and> length browsers \<le> 50
        \<and> (\<forall>v \<in> set browsers. \<not> contains (u ''more'') v \<and> \<not> contains (u ''more'') (lower v)))"
proof (intro conjI impI)
  assume p: "parse xpath net b = Some (Inr (b', Some versions))"
  then show "versions \<noteq> []"
    by (auto simp: parse_def Let_def split: option.splits if_splits prod.splits)
  from p show "length versions \<le> 50"
    by (auto simp: parse_def Let_def browser_num_def split: option.splits if_splits prod.splits)
next
  assume g: "get_browser_versions retries pages finditer b = Some (Inr browsers)"
  then obtain ms where ms: "browsers = versions_loop [] ms" and ne: "browsers \<noteq> []"
    by (auto simp: get_browser_versions_def Let_def split: option.splits sum.splits if_splits)
  show "browsers \<noteq> []" by (rule ne)
  have inv: "length browsers \<le> BROWSERS_COUNT_LIMIT
      \<and> set browsers \<subseteq> set [] \<union> {m \<in> set ms. \<not> contains (u ''more'') (lower m)}"
    unfolding ms by (rule versions_loop_inv) (simp add: BROWSERS_COUNT_LIMIT_def)
  then show "length browsers \<le> 50" by (simp add: BROWSERS_COUNT_LIMIT_def)
  from inv show "\<forall>v \<in> set browsers. \<not> contains (u ''more'') v \<and> \<not> contains (u ''more'') (lower v)"
    using contains_lower_more by auto
qed

text \<open>
  C8, an instance: one page per browser.
\<close>

theorem version_lists_bounded_witness:
  "parse (\<lambda>t. Some [t]) (\<lambda>b n. Body b) (u ''chrome'') = Some (Inr (u ''chrome'', Some [u ''chrome'']))
   \<and> get_browser_versions 1 (\<lambda>b n. Content b) (\<lambda>h. Some [h, u ''more'']) (u ''chrome'')
       = Some (Inr [u ''chrome''])
   \<and> [u ''chrome''] \<noteq> [] \<and> length [u ''chrome''] \<le> 50
   \<and> \<not> contains (u ''more'') (u ''chrome'') \<and> \<not> contains (u ''more'') (lower (u ''chrome''))"
proof -
  have p: "parse (\<lambda>t. Some [t]) (\<lambda>b n. Body b) (u ''chrome'')
           = Some (Inr (u ''chrome'', Some [u ''chrome'']))"
    by (simp add: parse_def parse_fetch.simps browser_num_def)
  have g: "get_browser_versions 1 (\<lambda>b n. Content b) (\<lambda>h. Some [h, u ''more'']) (u ''chrome'')
       = Some (Inr [u ''chrome''])"
    by (simp add: get_browser_versions_def get_def get_loop.simps Let_def lower_more
          BROWSERS_COUNT_LIMIT_def)
       (simp add: u_def lower_def lower_cp_def)
  from version_lists_bounded [of "\<lambda>t. Some [t]" "\<lambda>b n. Body b" "u ''chrome''" "u ''chrome''"
      "[u ''chrome'']" 1 "\<lambda>b n. Content b" "\<lambda>h. Some [h, u ''more'']" "[u ''chrome'']"] p g
  show ?thesis by simp
qed

section \<open>The cache store\<close>


lemma read_written:
  "wf_val v \<Longrightarrow> read_cache (fsys(p \<mapsto> File (json_dumps v))) p = Inr v"
  by (simp add: read_cache_def read_text_def json_roundtrip)










section \<open>The strict selector\<close>


text \<open>
  C10, as stated, fails. The cache file exists and holds a truncated text, and the browser
  argument is the number 42: \<open>read\<close> raises \<open>JSONDecodeError\<close> in the first block of
  \<open>get_fake_useragent\<close>, before the type of the argument is looked at.
\<close>

theorem corrupt_cache_precedes_type_check:
  "get_fake_useragent 1 (\<lambda>b n. NetError) (\<lambda>n. NetError) (\<lambda>h. None) (u ''db.json'')
      (Map.empty(u ''db.json'' \<mapsto> File (u ''{''))) 0 0 (PNum (u ''42'')) True
   = Some (Inl JSONDecodeError, Map.empty(u ''db.json'' \<mapsto> File (u ''{'')), [ReadFrom (u ''db.json'')])"
proof -
  have j: "json_loads (u ''{'') = None"
    by (simp add: json_loads_def u_def skip_ws_def is_ws_def scan_once.simps)
  show ?thesis
    by (simp add: get_fake_useragent_def cached_data_def isfile_def read_cache_def read_text_def j Let_def)
qed

text \<open>
  C10, amended. For a browser argument that is neither \<open>None\<close> nor a string,
  \<open>get_fake_useragent\<close> never prints a user-agent: whatever it returns is an exception.
  When its first block has bound \<open>data\<close>, and \<open>data\<close> has the entry \<open>browsers\<close> and a
  \<open>dict\<close> as the entry \<open>randomize\<close>, the exception is
  \<open>FakeUserAgentError("Please use a valid browser name.")\<close>; the file system and the
  cache operations are those of the first block.
\<close>

theorem non_string_browser_rejected:
  assumes "browser \<noteq> PNone" and "\<forall>s. browser \<noteq> PStr s"
  shows "(get_fake_useragent retries pages server finditer DB fsys r1 r2 browser use_cache
            = Some (r, f, t) \<longrightarrow> (\<exists>e. r = Inl e))
     \<and> (cached_data retries pages server finditer DB fsys use_cache = Some (Inr data, f, t)
          \<and> subscript data (u ''browsers'') = Inr browsers
          \<and> subscript data (u ''randomize'') = Inr (PDict randomized) \<longrightarrow>
          get_fake_useragent retries pages server finditer DB fsys r1 r2 browser use_cache
            = Some (Inl (FakeUserAgentError ''Please use a valid browser name.''), f, t))"
proof -
  have b: "(case browser of
              PNone \<Rightarrow> x
            | PStr given \<Rightarrow> y given
            | _ \<Rightarrow> Inl (FakeUserAgentError ''Please use a valid browser name.''))
           = (Inl (FakeUserAgentError ''Please use a valid browser name.'') :: exn + pyval)" for x y
    using assms by (cases browser) auto
  show ?thesis
    unfolding get_fake_useragent_def b
    by (auto simp: bind_exn_def dict_values_def split: option.splits sum.splits prod.splits)
qed

text \<open>
  C10, an instance: the number 42 against a cache file that holds the sample record.
\<close>

theorem non_string_browser_rejected_witness:
  "PNum (u ''42'') \<noteq> PNone \<and> (\<forall>s. PNum (u ''42'') \<noteq> PStr s)
   \<and> get_fake_useragent 1 (\<lambda>b n. NetError) (\<lambda>n. NetError) (\<lambda>h. None) (u ''db.json'')
        (Map.empty(u ''db.json'' \<mapsto> File (json_dumps sample_db))) 0 0 (PNum (u ''42'')) True
      = Some (Inl (FakeUserAgentError ''Please use a valid browser name.''),
              Map.empty(u ''db.json'' \<mapsto> File (json_dumps sample_db)), [ReadFrom (u ''db.json'')])"
proof -
  have wf: "wf_val sample_db"
    by (simp add: sample_db_def wf_str_def scalar_def u_def)
  have c: "cached_data 1 (\<lambda>b n. NetError) (\<lambda>n. NetError) (\<lambda>h. None) (u ''db.json'')
        (Map.empty(u ''db.json'' \<mapsto> File (json_dumps sample_db))) True
      = Some (Inr sample_db, Map.empty(u ''db.json'' \<mapsto> File (json_dumps sample_db)),
              [ReadFrom (u ''db.json'')])"
    by (simp add: cached_data_def isfile_def read_written [OF wf] Let_def del: json_dumps.simps)
  have s: "subscript sample_db (u ''browsers'')
             = Inr (PDict [(u ''chrome'', PList [PStr (u ''UA-chrome'')])])"
    "subscript sample_db (u ''randomize'') = Inr (PDict [(u ''0'', PStr (u ''chrome''))])"
    by (simp_all add: subscript_def sample_db_def u_def)
  from non_string_browser_rejected [of "PNum (u ''42'')" 1 "\<lambda>b n. NetError" "\<lambda>n. NetError"
      "\<lambda>h. None" "u ''db.json''" "Map.empty(u ''db.json'' \<mapsto> File (json_dumps sample_db))"
      0 0 True _ _ _ sample_db] c s
  show ?thesis by simp
qed







section \<open>Cache removal\<close>


end
